theory Spec2Isabelle
  imports Complex_Main "HOL-Library.Monad_Syntax"
begin

section \<open>The 2048 rules engine of \<open>sl29/games/_2048.py\<close>\<close>

text \<open>
  A board is a Python list of rows, a row is a list of unbounded integers, and the cell
  value 0 is the empty cell. Every function of the module is embedded below under its
  own name. A raised \<open>IndexError\<close> is the value \<open>None\<close>. The two calls to the random
  source become parameters: \<open>k\<close> is the raw integer draw behind \<open>random.choice\<close>
  (reduced below the length of the sequence it chooses from) and \<open>r\<close> is the value
  returned by \<open>random.random()\<close>, a number in the interval from 0 (included) to 1
  (excluded).
\<close>

type_synonym ligne = "int list"
type_synonym plateau = "ligne list"

abbreviation TAILLE :: nat where
  "TAILLE \<equiv> 4"

subsection \<open>Python list primitives\<close>

text \<open>\<open>xs[i]\<close>: a negative index counts from the end, out of range raises.\<close>

definition py_nth :: "'a list \<Rightarrow> int \<Rightarrow> 'a option" where
  "py_nth xs i =
     (let n = int (length xs); j = (if i < 0 then i + n else i)
      in if 0 \<le> j \<and> j < n then Some (xs ! nat j) else None)"

text \<open>\<open>xs[i] = x\<close>: the same index rule as a read.\<close>

definition py_set :: "'a list \<Rightarrow> int \<Rightarrow> 'a \<Rightarrow> 'a list option" where
  "py_set xs i x =
     (let n = int (length xs); j = (if i < 0 then i + n else i)
      in if 0 \<le> j \<and> j < n then Some (xs[nat j := x]) else None)"

text \<open>\<open>xs.insert(i, x)\<close> never raises: the index is clamped to the list.\<close>

definition py_insert :: "'a list \<Rightarrow> int \<Rightarrow> 'a \<Rightarrow> 'a list" where
  "py_insert xs i x =
     (let n = int (length xs); j = (if i < 0 then max 0 (i + n) else min i n)
      in take (nat j) xs @ x # drop (nat j) xs)"

text \<open>\<open>xs.pop(i)\<close>, of which the module only uses the remaining list.\<close>

definition py_pop :: "'a list \<Rightarrow> int \<Rightarrow> 'a list option" where
  "py_pop xs i =
     (let n = int (length xs); j = (if i < 0 then i + n else i)
      in if 0 \<le> j \<and> j < n then Some (take (nat j) xs @ drop (Suc (nat j)) xs) else None)"

text \<open>\<open>int(x)\<close> on a float truncates towards zero.\<close>

definition py_int :: "real \<Rightarrow> int" where
  "py_int x = (if 0 \<le> x then \<lfloor>x\<rfloor> else \<lceil>x\<rceil>)"

subsection \<open>Board construction and empty cells\<close>

definition creer_plateau_vide :: plateau where
  "creer_plateau_vide = replicate TAILLE (replicate TAILLE 0)"

text \<open>The comprehension \<open>[(i,j) for j in range(TAILLE) if plateau[i][j]==0]\<close>.\<close>

fun cases_vides_ligne :: "plateau \<Rightarrow> nat \<Rightarrow> nat list \<Rightarrow> (nat \<times> nat) list option" where
  "cases_vides_ligne p i [] = Some []"
| "cases_vides_ligne p i (j # js) =
     do {
       l \<leftarrow> py_nth p (int i);
       x \<leftarrow> py_nth l (int j);
       reste \<leftarrow> cases_vides_ligne p i js;
       Some (if x = 0 then (i, j) # reste else reste)
     }"

text \<open>The loop \<open>for i in range(TAILLE)\<close> of \<open>_get_cases_vides\<close>.\<close>

fun cases_vides_boucle :: "plateau \<Rightarrow> nat list \<Rightarrow> (nat \<times> nat) list option" where
  "cases_vides_boucle p [] = Some []"
| "cases_vides_boucle p (i # is) =
     do {
       current \<leftarrow> cases_vides_ligne p i [0..<TAILLE];
       reste \<leftarrow> cases_vides_boucle p is;
       Some (current @ reste)
     }"

definition get_cases_vides :: "plateau \<Rightarrow> (nat \<times> nat) list option" where
  "get_cases_vides p = cases_vides_boucle p [0..<TAILLE]"

text \<open>
  \<open>_ajouter_tuile\<close>; \<open>k\<close> and \<open>r\<close> are the two random draws. The deep copy is the
  board value itself, which is what \<open>copy.deepcopy\<close> returns when the rows of the board
  are distinct list objects. Every board that \<open>nouvelle_partie\<close> and \<open>jouer_coup\<close> pass
  to this function is such a board: its rows were built one by one by
  \<open>_creer_plateau_vide\<close>, by an earlier deep copy or by a move. A board whose rows are one
  shared list object lies outside this model: the deep copy keeps the sharing, and the
  write of the tile then shows in every shared row.
\<close>

definition ajouter_tuile :: "plateau \<Rightarrow> nat \<Rightarrow> real \<Rightarrow> plateau option" where
  "ajouter_tuile p k r =
     do {
       vides \<leftarrow> get_cases_vides p;
       if vides = [] then Some p
       else do {
         choix \<leftarrow> get_cases_vides p;
         let c = choix ! (k mod length choix);
         l \<leftarrow> py_nth p (int (fst c));
         l' \<leftarrow> py_set l (int (snd c)) (2 + 2 * py_int r);
         py_set p (int (fst c)) l'
       }
     }"

subsection \<open>The line primitive\<close>

definition supprimer_zeros :: "ligne \<Rightarrow> ligne" where
  "supprimer_zeros l = filter (\<lambda>v. v \<noteq> 0) l"

text \<open>
  The \<open>while\<close> loop of \<open>_fusionner\<close> on its five variables. The list is edited in place
  by \<open>insert\<close> and two \<open>pop\<close>s, exactly as in the source, \<open>ligne[v-1]\<close> included (which
  reads the last element when \<open>v\<close> is 0).
\<close>

function fusionner_boucle ::
    "ligne \<Rightarrow> int \<Rightarrow> int \<Rightarrow> int \<Rightarrow> int \<Rightarrow> (ligne \<times> int) option" where
  "fusionner_boucle l last' points lenght v =
     (if v < lenght then
        (case py_nth l v of
           None \<Rightarrow> None
         | Some x \<Rightarrow>
             if x = last' then
               (case py_nth l (v - 1) of
                  None \<Rightarrow> None
                | Some prev \<Rightarrow>
                    (case py_pop (py_insert l (v - 1) (prev * 2)) v of
                       None \<Rightarrow> None
                     | Some l1 \<Rightarrow>
                         (case py_pop l1 v of
                            None \<Rightarrow> None
                          | Some l2 \<Rightarrow>
                              fusionner_boucle l2 0 (points + prev * 2) (lenght - 1) v)))
             else fusionner_boucle l x points lenght (v + 1))
      else Some (l, points))"
  by pat_completeness auto
termination
  by (relation "measure (\<lambda>(l, last', points, lenght, v). nat (lenght - v))") auto

declare fusionner_boucle.simps [simp del]

definition fusionner :: "ligne \<Rightarrow> (ligne \<times> int) option" where
  "fusionner l = fusionner_boucle l 0 0 (int (length l)) 0"

function completer_zeros :: "ligne \<Rightarrow> ligne" where
  "completer_zeros l = (if length l < TAILLE then completer_zeros (l @ [0]) else l)"
  by pat_completeness auto
termination
  by (relation "measure (\<lambda>l. TAILLE - length l)") auto

declare completer_zeros.simps [simp del]

subsection \<open>The four moves\<close>

text \<open>
  The body of the loop of \<open>_deplacer_gauche\<close> (lines 159 to 162): one row is compacted,
  merged and padded. This is the single-line primitive.
\<close>

definition deplacer_ligne :: "ligne \<Rightarrow> (ligne \<times> int) option" where
  "deplacer_ligne l =
     do {
       (l_fusionnee, points) \<leftarrow> fusionner (supprimer_zeros l);
       Some (completer_zeros l_fusionnee, points)
     }"

text \<open>
  The loop of \<open>_deplacer_gauche\<close> over the rows, with its two accumulators
  \<open>nouveau_plateau\<close> and \<open>nouveaux_points\<close>.
\<close>

fun deplacer_gauche_boucle ::
    "plateau \<Rightarrow> plateau \<Rightarrow> int \<Rightarrow> (plateau \<times> int) option" where
  "deplacer_gauche_boucle [] nouveau_plateau nouveaux_points =
     Some (nouveau_plateau, nouveaux_points)"
| "deplacer_gauche_boucle (l # reste) nouveau_plateau nouveaux_points =
     do {
       (l_finale, points) \<leftarrow> deplacer_ligne l;
       deplacer_gauche_boucle reste (nouveau_plateau @ [l_finale]) (nouveaux_points + points)
     }"

definition deplacer_gauche :: "plateau \<Rightarrow> (plateau \<times> int) option" where
  "deplacer_gauche p = deplacer_gauche_boucle p [] 0"

definition inverser_lignes :: "plateau \<Rightarrow> plateau" where
  "inverser_lignes p = map rev p"

definition deplacer_droite :: "plateau \<Rightarrow> (plateau \<times> int) option" where
  "deplacer_droite p =
     do {
       (p_final, nouveaux_points) \<leftarrow> deplacer_gauche (inverser_lignes p);
       Some (inverser_lignes p_final, nouveaux_points)
     }"

text \<open>The inner loop of \<open>_transposer\<close>: \<open>ligne[n]\<close> for every row.\<close>

fun colonne :: "plateau \<Rightarrow> nat \<Rightarrow> ligne option" where
  "colonne [] n = Some []"
| "colonne (l # reste) n =
     do {
       x \<leftarrow> py_nth l (int n);
       xs \<leftarrow> colonne reste n;
       Some (x # xs)
     }"

fun transposer_boucle :: "plateau \<Rightarrow> nat list \<Rightarrow> plateau option" where
  "transposer_boucle p [] = Some []"
| "transposer_boucle p (n # ns) =
     do {
       nouvelle_ligne \<leftarrow> colonne p n;
       reste \<leftarrow> transposer_boucle p ns;
       Some (nouvelle_ligne # reste)
     }"

definition transposer :: "plateau \<Rightarrow> plateau option" where
  "transposer p = transposer_boucle p [0..<TAILLE]"

definition deplacer_haut :: "plateau \<Rightarrow> (plateau \<times> int) option" where
  "deplacer_haut p =
     do {
       p_transpose \<leftarrow> transposer p;
       (p_final, nouveaux_points) \<leftarrow> deplacer_gauche p_transpose;
       t \<leftarrow> transposer p_final;
       Some (t, nouveaux_points)
     }"

definition deplacer_bas :: "plateau \<Rightarrow> (plateau \<times> int) option" where
  "deplacer_bas p =
     do {
       p_transpose \<leftarrow> transposer p;
       (p_final, nouveaux_points) \<leftarrow> deplacer_droite p_transpose;
       t \<leftarrow> transposer p_final;
       Some (t, nouveaux_points)
     }"

subsection \<open>Terminal detection\<close>

text \<open>
  One inner loop of \<open>_partie_terminee\<close>: \<open>lire v\<close> reads the cell of index \<open>v\<close> on the
  scanned line, \<open>last'\<close> (the variable \<open>last\<close>) starts at 0. The result \<open>True\<close> says that the loop hit its
  \<open>return False\<close>.
\<close>

fun balayer :: "(nat \<Rightarrow> int option) \<Rightarrow> nat list \<Rightarrow> int \<Rightarrow> bool option" where
  "balayer lire [] last' = Some False"
| "balayer lire (v # vs) last' =
     (case lire v of
        None \<Rightarrow> None
      | Some x \<Rightarrow> if x = last' then Some True else balayer lire vs x)"

text \<open>One outer loop \<open>for n in range(TAILLE)\<close> around it.\<close>

fun balayer_tout :: "(nat \<Rightarrow> nat \<Rightarrow> int option) \<Rightarrow> nat list \<Rightarrow> bool option" where
  "balayer_tout lire [] = Some False"
| "balayer_tout lire (n # ns) =
     (case balayer (lire n) [0..<TAILLE] 0 of
        None \<Rightarrow> None
      | Some True \<Rightarrow> Some True
      | Some False \<Rightarrow> balayer_tout lire ns)"

text \<open>\<open>plateau[i][j]\<close>.\<close>

definition case_plateau :: "plateau \<Rightarrow> nat \<Rightarrow> nat \<Rightarrow> int option" where
  "case_plateau p i j = do { l \<leftarrow> py_nth p (int i); py_nth l (int j) }"

definition partie_terminee :: "plateau \<Rightarrow> bool option" where
  "partie_terminee p =
     do {
       vides \<leftarrow> get_cases_vides p;
       if vides \<noteq> [] then Some False
       else do {
         vertical \<leftarrow> balayer_tout (\<lambda>n v. case_plateau p v n) [0..<TAILLE];
         if vertical then Some False
         else do {
           horizontal \<leftarrow> balayer_tout (\<lambda>n v. case_plateau p n v) [0..<TAILLE];
           Some (\<not> horizontal)
         }
       }
     }"

subsection \<open>The public functions\<close>

definition nouvelle_partie ::
    "nat \<Rightarrow> real \<Rightarrow> nat \<Rightarrow> real \<Rightarrow> (plateau \<times> int) option" where
  "nouvelle_partie k1 r1 k2 r2 =
     do {
       p1 \<leftarrow> ajouter_tuile creer_plateau_vide k1 r1;
       p2 \<leftarrow> ajouter_tuile p1 k2 r2;
       Some (p2, 0)
     }"

text \<open>
  Lines 37 to 47 of \<open>jouer_coup\<close>: the four \<open>if\<close>s in sequence, each of which overwrites
  the pair \<open>(result, nouveaux_points)\<close> when its direction matches.
\<close>

definition coup_candidat :: "plateau \<Rightarrow> string \<Rightarrow> (plateau \<times> int) option" where
  "coup_candidat p direction =
     do {
       s1 \<leftarrow> (if direction = ''g'' then deplacer_gauche p else Some (p, 0));
       s2 \<leftarrow> (if direction = ''d'' then deplacer_droite p else Some s1);
       s3 \<leftarrow> (if direction = ''h'' then deplacer_haut p else Some s2);
       (if direction = ''b'' then deplacer_bas p else Some s3)
     }"

definition jouer_coup ::
    "plateau \<Rightarrow> string \<Rightarrow> nat \<Rightarrow> real \<Rightarrow> (plateau \<times> int \<times> bool) option" where
  "jouer_coup p direction k r =
     do {
       (result, nouveaux_points) \<leftarrow> coup_candidat p direction;
       if p = result then
         do {
           fini \<leftarrow> partie_terminee result;
           Some (result, nouveaux_points, fini)
         }
       else
         do {
           nouveau \<leftarrow> ajouter_tuile result k r;
           fini \<leftarrow> partie_terminee result;
           Some (nouveau, nouveaux_points, fini)
         }
     }"

section \<open>The specification's vocabulary\<close>

text \<open>
  A well-formed board has exactly \<open>TAILLE\<close> rows of \<open>TAILLE\<close> cells (section 3 of the
  specification). Cell values are left unconstrained.
\<close>

definition wf_board :: "plateau \<Rightarrow> bool" where
  "wf_board p \<longleftrightarrow> length p = TAILLE \<and> (\<forall>l \<in> set p. length l = TAILLE)"

text \<open>The number of non-empty cells of a line, and of a board.\<close>

definition nb_tuiles :: "ligne \<Rightarrow> nat" where
  "nb_tuiles l = length (filter (\<lambda>v. v \<noteq> 0) l)"

definition nb_tuiles_plateau :: "plateau \<Rightarrow> nat" where
  "nb_tuiles_plateau p = nb_tuiles (concat p)"

text \<open>A line holds two adjacent equal non-empty values.\<close>

fun paire_pleine :: "ligne \<Rightarrow> bool" where
  "paire_pleine (a # b # xs) = ((a = b \<and> a \<noteq> 0) \<or> paire_pleine (b # xs))"
| "paire_pleine xs = False"

text \<open>
  Section 4.2 read as a function: the merge step scans left to right, a pair of equal
  neighbours becomes one cell of double the value, worth that many points, and the scan
  resumes after the pair, so that the merged cell cannot merge again.
\<close>

fun spec_merge_cells :: "int list \<Rightarrow> int list" where
  "spec_merge_cells (a # b # xs) =
     (if a = b then 2 * a # spec_merge_cells xs else a # spec_merge_cells (b # xs))"
| "spec_merge_cells xs = xs"

fun spec_merge_points :: "int list \<Rightarrow> int" where
  "spec_merge_points (a # b # xs) =
     (if a = b then 2 * a + spec_merge_points xs else spec_merge_points (b # xs))"
| "spec_merge_points xs = 0"

definition spec_compact :: "int list \<Rightarrow> int list" where
  "spec_compact l = filter (\<lambda>v. v \<noteq> 0) l"

definition spec_pad :: "int list \<Rightarrow> int list" where
  "spec_pad l = l @ replicate (TAILLE - length l) 0"

definition spec_line :: "int list \<Rightarrow> int list \<times> int" where
  "spec_line l =
     (spec_pad (spec_merge_cells (spec_compact l)), spec_merge_points (spec_compact l))"

text \<open>Section 4.3: the two grid transforms and the four moves composed from them.\<close>

definition spec_reverse_rows :: "plateau \<Rightarrow> plateau" where
  "spec_reverse_rows g = map rev g"

definition spec_transpose :: "plateau \<Rightarrow> plateau" where
  "spec_transpose g = map (\<lambda>i. map (\<lambda>j. g ! j ! i) [0..<TAILLE]) [0..<TAILLE]"

definition spec_move_left :: "plateau \<Rightarrow> plateau \<times> int" where
  "spec_move_left g = (map (\<lambda>l. fst (spec_line l)) g, sum_list (map (\<lambda>l. snd (spec_line l)) g))"

definition spec_move_right :: "plateau \<Rightarrow> plateau \<times> int" where
  "spec_move_right g =
     (let (b, points) = spec_move_left (spec_reverse_rows g) in (spec_reverse_rows b, points))"

definition spec_move_up :: "plateau \<Rightarrow> plateau \<times> int" where
  "spec_move_up g =
     (let (b, points) = spec_move_left (spec_transpose g) in (spec_transpose b, points))"

definition spec_move_down :: "plateau \<Rightarrow> plateau \<times> int" where
  "spec_move_down g =
     (let (b, points) = spec_move_right (spec_transpose g) in (spec_transpose b, points))"

text \<open>Section 4.1: the empty cells of a board, as coordinates in row-major order.\<close>

definition spec_empty_cells :: "plateau \<Rightarrow> (nat \<times> nat) list" where
  "spec_empty_cells p =
     concat (map (\<lambda>i. map (Pair i) (filter (\<lambda>j. p ! i ! j = 0) [0..<TAILLE])) [0..<TAILLE])"

text \<open>Section 4.5: a full board without two equal neighbours in a row or in a column.\<close>

definition plateau_plein :: "plateau \<Rightarrow> bool" where
  "plateau_plein p \<longleftrightarrow> (\<forall>i \<in> {0..<TAILLE}. \<forall>j \<in> {0..<TAILLE}. p ! i ! j \<noteq> 0)"

definition paire_horizontale :: "plateau \<Rightarrow> bool" where
  "paire_horizontale p \<longleftrightarrow>
     (\<exists>i \<in> {0..<TAILLE}. \<exists>j \<in> {0..<TAILLE - 1}. p ! i ! (j + 1) = p ! i ! j)"

definition paire_verticale :: "plateau \<Rightarrow> bool" where
  "paire_verticale p \<longleftrightarrow>
     (\<exists>j \<in> {0..<TAILLE}. \<exists>i \<in> {0..<TAILLE - 1}. p ! (i + 1) ! j = p ! i ! j)"

section \<open>The line primitive computes the merge of section 4.2\<close>

lemma py_nth_append_here [simp]: "py_nth (xs @ y # ys) (int (length xs)) = Some y"
  by (simp add: py_nth_def)

lemma py_nth_append_next [simp]: "py_nth (xs @ a # y # ys) (1 + int (length xs)) = Some y"
  using py_nth_append_here [of "xs @ [a]" y ys] by (simp add: add.commute)

lemma py_insert_append_here [simp]: "py_insert (xs @ ys) (int (length xs)) x = xs @ x # ys"
  by (simp add: py_insert_def)

lemma py_pop_append_here [simp]: "py_pop (xs @ y # ys) (int (length xs)) = Some (xs @ ys)"
  by (simp add: py_pop_def)

lemma py_pop_append_next [simp]: "py_pop (xs @ a # y # ys) (1 + int (length xs)) = Some (xs @ a # ys)"
  using py_pop_append_here [of "xs @ [a]" y ys] by (simp add: add.commute)

lemma fusionner_boucle_inv:
  "0 \<notin> set rest \<Longrightarrow>
     fusionner_boucle (pre @ rest) 0 pts (int (length pre + length rest)) (int (length pre))
       = Some (pre @ spec_merge_cells rest, pts + spec_merge_points rest)
   \<and> (a \<noteq> 0 \<longrightarrow>
     fusionner_boucle (pre @ a # rest) a pts (int (length pre + 1 + length rest)) (int (length pre) + 1)
       = Some (pre @ spec_merge_cells (a # rest), pts + spec_merge_points (a # rest)))"
proof (induction rest arbitrary: pre a pts rule: length_induct)
  case (1 rest)
  note IH = "1.IH" and nz = "1.prems"
  have second: "fusionner_boucle (pre @ a # rest) a pts (int (length pre + 1 + length rest)) (int (length pre) + 1)
       = Some (pre @ spec_merge_cells (a # rest), pts + spec_merge_points (a # rest))" if a: "a \<noteq> 0" for a pre pts
  proof (cases rest)
    case Nil
    then show ?thesis by (subst fusionner_boucle.simps) simp
  next
    case (Cons b r)
    show ?thesis
    proof (cases "b = a")
      case True
      have nzr: "0 \<notin> set r" using nz Cons by simp
      have "length r < length rest" using Cons by simp
      with IH nzr have h: "fusionner_boucle ((pre @ [2 * a]) @ r) 0 (pts + 2 * a) (int (length (pre @ [2 * a]) + length r)) (int (length (pre @ [2 * a])))
       = Some ((pre @ [2 * a]) @ spec_merge_cells r, (pts + 2 * a) + spec_merge_points r)"
        by blast
      show ?thesis
        apply (subst fusionner_boucle.simps)
        using h True Cons by (simp add: add.commute mult.commute)
    next
      case False
      have nzr: "0 \<notin> set r" and b: "b \<noteq> 0" using nz Cons by auto
      have "length r < length rest" using Cons by simp
      with IH nzr b have h: "fusionner_boucle ((pre @ [a]) @ b # r) b pts (int (length (pre @ [a]) + 1 + length r)) (int (length (pre @ [a])) + 1)
       = Some ((pre @ [a]) @ spec_merge_cells (b # r), pts + spec_merge_points (b # r))"
        by blast
      show ?thesis
        apply (subst fusionner_boucle.simps)
        using h False Cons by (simp add: add.commute)
    qed
  qed
  have first: "fusionner_boucle (pre @ rest) 0 pts (int (length pre + length rest)) (int (length pre))
       = Some (pre @ spec_merge_cells rest, pts + spec_merge_points rest)"
  proof (cases rest)
    case Nil
    then show ?thesis by (subst fusionner_boucle.simps) simp
  next
    case (Cons b r)
    have b: "b \<noteq> 0" using nz Cons by auto
    have nzr: "0 \<notin> set r" using nz Cons by simp
    have "length r < length rest" using Cons by simp
    with IH nzr b have h: "fusionner_boucle (pre @ b # r) b pts (int (length pre + 1 + length r)) (int (length pre) + 1)
       = Some (pre @ spec_merge_cells (b # r), pts + spec_merge_points (b # r))"
      by blast
    show ?thesis
      apply (subst fusionner_boucle.simps)
      using h b Cons by (simp add: add.commute)
  qed
  show ?case using first second by blast
qed


lemma fusionner_sans_zero:
  "0 \<notin> set xs \<Longrightarrow> fusionner xs = Some (spec_merge_cells xs, spec_merge_points xs)"
  using fusionner_boucle_inv [of xs "[]" 0] by (simp add: fusionner_def)

lemma completer_zeros_eq: "completer_zeros l = spec_pad l"
proof (induction l rule: completer_zeros.induct)
  case (1 l)
  show ?case
  proof (cases "length l < TAILLE")
    case True
    then have "completer_zeros l = completer_zeros (l @ [0])"
      by (subst completer_zeros.simps) simp
    also have "\<dots> = spec_pad (l @ [0])" using 1 True by simp
    also have "\<dots> = spec_pad l"
      using True by (simp add: spec_pad_def replicate_app_Cons_same flip: replicate_Suc Suc_diff_Suc)
    finally show ?thesis .
  next
    case False
    then show ?thesis by (subst completer_zeros.simps) (simp add: spec_pad_def)
  qed
qed

lemma deplacer_ligne_eq: "deplacer_ligne l = Some (spec_line l)"
  by (simp add: deplacer_ligne_def supprimer_zeros_def spec_line_def spec_compact_def
      fusionner_sans_zero completer_zeros_eq)

lemma deplacer_gauche_boucle_eq:
  "deplacer_gauche_boucle p acc pts =
     Some (acc @ map (\<lambda>l. fst (spec_line l)) p, pts + sum_list (map (\<lambda>l. snd (spec_line l)) p))"
  by (induction p arbitrary: acc pts) (simp_all add: deplacer_ligne_eq split: prod.split)

lemma deplacer_gauche_eq: "deplacer_gauche p = Some (spec_move_left p)"
  by (simp add: deplacer_gauche_def deplacer_gauche_boucle_eq spec_move_left_def)

section \<open>Facts about the merge\<close>

lemma length_merge_le: "length (spec_merge_cells xs) \<le> length xs"
  by (induction xs rule: spec_merge_cells.induct) auto

lemma merge_sans_zero: "0 \<notin> set xs \<Longrightarrow> 0 \<notin> set (spec_merge_cells xs)"
  by (induction xs rule: spec_merge_cells.induct) auto

lemma merge_distinct_adj:
  "distinct_adj xs \<Longrightarrow> spec_merge_cells xs = xs \<and> spec_merge_points xs = 0"
  by (induction xs rule: spec_merge_cells.induct) auto

lemma merge_shorter: "\<not> distinct_adj xs \<Longrightarrow> length (spec_merge_cells xs) < length xs"
proof (induction xs rule: spec_merge_cells.induct)
  case (1 a b xs)
  show ?case
  proof (cases "a = b")
    case True
    then show ?thesis using length_merge_le [of xs] by simp
  next
    case False
    then show ?thesis using 1 by simp
  qed
qed simp_all

lemma merge_same_length:
  "length (spec_merge_cells xs) = length xs \<Longrightarrow> spec_merge_cells xs = xs \<and> spec_merge_points xs = 0"
  using merge_shorter [of xs] merge_distinct_adj [of xs] by fastforce

lemma compact_sans_zero [simp]: "0 \<notin> set (spec_compact l)"
  by (simp add: spec_compact_def)

lemma compact_pad: "0 \<notin> set m \<Longrightarrow> spec_compact (spec_pad m) = m"
  by (auto simp add: spec_compact_def spec_pad_def filter_id_conv)

lemma nb_tuiles_compact: "nb_tuiles l = length (spec_compact l)"
  by (simp add: nb_tuiles_def spec_compact_def)

lemma length_compact_le: "length (spec_compact l) \<le> length l"
  by (simp add: spec_compact_def)

lemma line_fst: "fst (spec_line l) = spec_pad (spec_merge_cells (spec_compact l))"
  by (simp add: spec_line_def)

lemma compact_line: "spec_compact (fst (spec_line l)) = spec_merge_cells (spec_compact l)"
  by (simp add: line_fst compact_pad merge_sans_zero)

lemma nb_tuiles_line: "nb_tuiles (fst (spec_line l)) \<le> nb_tuiles l"
  by (simp add: nb_tuiles_compact compact_line length_merge_le)

lemma paire_pleine_zeros: "\<not> paire_pleine (a # replicate n 0)"
  by (induction n arbitrary: a) auto

lemma paire_pleine_pad: "distinct_adj m \<Longrightarrow> \<not> paire_pleine (m @ replicate n 0)"
proof (induction m rule: induct_list012)
  case 1
  then show ?case using paire_pleine_zeros [of 0 "n - 1"] by (cases n) auto
next
  case (2 v)
  then show ?case using paire_pleine_zeros [of v n] by simp
next
  case (3 a b xs)
  then show ?case by simp
qed

lemma merge3_distinct_adj:
  assumes "length c \<le> TAILLE"
  shows "distinct_adj (spec_merge_cells (spec_merge_cells (spec_merge_cells c)))"
proof -
  let ?m1 = "spec_merge_cells c"
  let ?m2 = "spec_merge_cells ?m1"
  let ?m3 = "spec_merge_cells ?m2"
  show ?thesis
  proof (cases "distinct_adj c")
    case True
    then show ?thesis by (simp add: merge_distinct_adj)
  next
    case c: False
    then have l1: "length ?m1 \<le> 3" using merge_shorter [of c] assms by simp
    show ?thesis
    proof (cases "distinct_adj ?m1")
      case True
      then show ?thesis by (simp add: merge_distinct_adj)
    next
      case False
      then have l2: "length ?m2 \<le> 2" using merge_shorter [of ?m1] l1 by simp
      show ?thesis
      proof (cases "distinct_adj ?m2")
        case True
        then show ?thesis by (simp add: merge_distinct_adj)
      next
        case False
        then have "length ?m3 \<le> 1" using merge_shorter [of ?m2] l2 by simp
        then show ?thesis by (cases ?m3) auto
      qed
    qed
  qed
qed

lemma merge2_distinct_adj:
  assumes "length c \<le> 3"
  shows "distinct_adj (spec_merge_cells (spec_merge_cells c))"
proof -
  let ?m1 = "spec_merge_cells c"
  let ?m2 = "spec_merge_cells ?m1"
  show ?thesis
  proof (cases "distinct_adj c")
    case True
    then show ?thesis by (simp add: merge_distinct_adj)
  next
    case False
    then have l1: "length ?m1 \<le> 2" using merge_shorter [of c] assms by simp
    show ?thesis
    proof (cases "distinct_adj ?m1")
      case True
      then show ?thesis by (simp add: merge_distinct_adj)
    next
      case False
      then have "length ?m2 \<le> 1" using merge_shorter [of ?m1] l1 by simp
      then show ?thesis by (cases ?m2) auto
    qed
  qed
qed

section \<open>Well-formed boards\<close>

lemma length4_conv: "length l = TAILLE \<longleftrightarrow> (\<exists>a b c d. l = [a, b, c, d])"
  by (auto simp add: numeral_eq_Suc length_Suc_conv)

lemma upt4: "[0..<TAILLE] = [0, 1, 2, 3]"
  by (simp add: numeral_eq_Suc upt_rec)

lemma wf_board_explicit:
  assumes "wf_board p"
  obtains a0 a1 a2 a3 b0 b1 b2 b3 c0 c1 c2 c3 d0 d1 d2 d3 where
    "p = [[a0, a1, a2, a3], [b0, b1, b2, b3], [c0, c1, c2, c3], [d0, d1, d2, d3]]"
proof -
  from assms obtain r0 r1 r2 r3 where p: "p = [r0, r1, r2, r3]"
    by (auto simp add: wf_board_def length4_conv)
  with assms have "length r0 = TAILLE" "length r1 = TAILLE" "length r2 = TAILLE" "length r3 = TAILLE"
    by (simp_all add: wf_board_def)
  then show thesis using p that by (auto simp add: length4_conv)
qed

lemma wf_board_nth: "wf_board p \<Longrightarrow> i < TAILLE \<Longrightarrow> length (p ! i) = TAILLE"
  by (simp add: wf_board_def)

lemma py_nth_nat: "n < length xs \<Longrightarrow> py_nth xs (int n) = Some (xs ! n)"
  by (simp add: py_nth_def)

lemma py_set_nat: "n < length xs \<Longrightarrow> py_set xs (int n) x = Some (xs[n := x])"
  by (simp add: py_set_def)

lemma colonne_eq:
  "\<forall>l \<in> set p. n < length l \<Longrightarrow> colonne p n = Some (map (\<lambda>l. l ! n) p)"
  by (induction p) (simp_all add: py_nth_nat)

lemma transposer_boucle_eq:
  "\<forall>n \<in> set ns. \<forall>l \<in> set p. n < length l \<Longrightarrow>
     transposer_boucle p ns = Some (map (\<lambda>n. map (\<lambda>l. l ! n) p) ns)"
  by (induction ns) (simp_all add: colonne_eq)

lemma transposer_wf: "wf_board p \<Longrightarrow> transposer p = Some (spec_transpose p)"
proof -
  assume w: "wf_board p"
  then have "transposer p = Some (map (\<lambda>n. map (\<lambda>l. l ! n) p) [0..<TAILLE])"
    unfolding transposer_def by (intro transposer_boucle_eq) (simp add: wf_board_def)
  moreover from w obtain a0 a1 a2 a3 b0 b1 b2 b3 c0 c1 c2 c3 d0 d1 d2 d3 where
    "p = [[a0, a1, a2, a3], [b0, b1, b2, b3], [c0, c1, c2, c3], [d0, d1, d2, d3]]"
    by (rule wf_board_explicit)
  ultimately show ?thesis by (simp add: spec_transpose_def upt4)
qed

lemma wf_spec_transpose: "wf_board (spec_transpose p)"
  by (simp add: wf_board_def spec_transpose_def upt4)

lemma spec_transpose_invol: "wf_board p \<Longrightarrow> spec_transpose (spec_transpose p) = p"
  by (erule wf_board_explicit) (simp add: spec_transpose_def upt4)

lemma set_concat_transpose:
  "wf_board p \<Longrightarrow> set (concat (spec_transpose p)) = set (concat p)"
  by (erule wf_board_explicit) (auto simp add: spec_transpose_def upt4)

lemma wf_reverse_rows: "wf_board p \<Longrightarrow> wf_board (spec_reverse_rows p)"
  by (simp add: wf_board_def spec_reverse_rows_def)

lemma reverse_rows_invol: "spec_reverse_rows (spec_reverse_rows p) = p"
  by (simp add: spec_reverse_rows_def comp_def)

lemma set_concat_reverse: "set (concat (spec_reverse_rows p)) = set (concat p)"
  by (simp add: spec_reverse_rows_def)

lemma inverser_lignes_eq: "inverser_lignes p = spec_reverse_rows p"
  by (simp add: inverser_lignes_def spec_reverse_rows_def)

section \<open>Empty cells\<close>

lemma cases_vides_ligne_eq:
  "i < length p \<Longrightarrow> \<forall>j \<in> set js. j < length (p ! i) \<Longrightarrow>
     cases_vides_ligne p i js = Some (map (Pair i) (filter (\<lambda>j. p ! i ! j = 0) js))"
  by (induction js) (simp_all add: py_nth_nat)

lemma cases_vides_boucle_eq:
  "\<forall>i \<in> set is. i < length p \<and> TAILLE \<le> length (p ! i) \<Longrightarrow>
     cases_vides_boucle p is =
       Some (concat (map (\<lambda>i. map (Pair i) (filter (\<lambda>j. p ! i ! j = 0) [0..<TAILLE])) is))"
  by (induction "is") (simp_all add: cases_vides_ligne_eq)

lemma get_cases_vides_wf: "wf_board p \<Longrightarrow> get_cases_vides p = Some (spec_empty_cells p)"
  unfolding get_cases_vides_def spec_empty_cells_def
  by (intro cases_vides_boucle_eq) (simp add: wf_board_def)

lemma set_spec_empty_cells:
  "set (spec_empty_cells p) = {(i, j). i < TAILLE \<and> j < TAILLE \<and> p ! i ! j = 0}"
  by (auto simp add: spec_empty_cells_def)

lemma zero_in_board:
  "wf_board p \<Longrightarrow> 0 \<in> set (concat p) \<Longrightarrow> \<exists>i < TAILLE. \<exists>j < TAILLE. p ! i ! j = 0"
  "wf_board p \<Longrightarrow> \<exists>i < TAILLE. \<exists>j < TAILLE. p ! i ! j = 0 \<Longrightarrow> 0 \<in> set (concat p)"
proof -
  assume w: "wf_board p" and "0 \<in> set (concat p)"
  then obtain l where l: "l \<in> set p" "0 \<in> set l" by auto
  then obtain i j where "i < length p" "l = p ! i" "j < length l" "l ! j = 0"
    by (metis in_set_conv_nth)
  then show "\<exists>i < TAILLE. \<exists>j < TAILLE. p ! i ! j = 0"
    using w l by (auto simp add: wf_board_def)
next
  assume w: "wf_board p" and "\<exists>i < TAILLE. \<exists>j < TAILLE. p ! i ! j = 0"
  then obtain i j where ij: "i < TAILLE" "j < TAILLE" "p ! i ! j = 0" by blast
  then have "p ! i \<in> set p" using w by (simp add: wf_board_def)
  moreover have "0 \<in> set (p ! i)"
    using ij w wf_board_nth [of p i] by (metis nth_mem)
  ultimately show "0 \<in> set (concat p)" by auto
qed

lemma spec_empty_cells_Nil:
  "wf_board p \<Longrightarrow> spec_empty_cells p = [] \<longleftrightarrow> 0 \<notin> set (concat p)"
proof -
  assume w: "wf_board p"
  have "spec_empty_cells p = [] \<longleftrightarrow> set (spec_empty_cells p) = {}" by simp
  also have "\<dots> \<longleftrightarrow> \<not> (\<exists>i < TAILLE. \<exists>j < TAILLE. p ! i ! j = 0)"
    unfolding set_spec_empty_cells by auto
  finally show ?thesis using zero_in_board [OF w] by blast
qed

section \<open>The four moves against section 4.3\<close>

lemma length_line: "length l \<le> TAILLE \<Longrightarrow> length (fst (spec_line l)) = TAILLE"
  using length_merge_le [of "spec_compact l"] length_compact_le [of l]
  by (simp add: line_fst spec_pad_def)

lemma wf_move_left: "wf_board p \<Longrightarrow> wf_board (fst (spec_move_left p))"
  by (auto simp add: wf_board_def spec_move_left_def length_line)

lemma deplacer_droite_eq: "deplacer_droite p = Some (spec_move_right p)"
  by (simp add: deplacer_droite_def inverser_lignes_eq deplacer_gauche_eq spec_move_right_def
      case_prod_unfold Let_def)

lemma wf_move_right: "wf_board p \<Longrightarrow> wf_board (fst (spec_move_right p))"
  by (simp add: spec_move_right_def wf_reverse_rows wf_move_left case_prod_unfold Let_def)

lemma deplacer_haut_eq: "wf_board p \<Longrightarrow> deplacer_haut p = Some (spec_move_up p)"
  using wf_move_left [OF wf_spec_transpose, of p]
  by (simp add: deplacer_haut_def transposer_wf deplacer_gauche_eq spec_move_up_def
      case_prod_unfold Let_def)

lemma deplacer_bas_eq: "wf_board p \<Longrightarrow> deplacer_bas p = Some (spec_move_down p)"
  using wf_move_right [OF wf_spec_transpose, of p]
  by (simp add: deplacer_bas_def transposer_wf deplacer_droite_eq spec_move_down_def
      case_prod_unfold Let_def)

lemma wf_move_up: "wf_board (fst (spec_move_up p))"
  by (simp add: spec_move_up_def wf_spec_transpose case_prod_unfold Let_def)

lemma wf_move_down: "wf_board (fst (spec_move_down p))"
  by (simp add: spec_move_down_def wf_spec_transpose case_prod_unfold Let_def)

section \<open>A move that changes the board leaves an empty cell\<close>

lemma line_changed_zero:
  assumes "length l = TAILLE" "fst (spec_line l) \<noteq> l"
  shows "0 \<in> set (fst (spec_line l))"
proof (rule ccontr)
  let ?c = "spec_compact l"
  let ?m = "spec_merge_cells ?c"
  assume nz: "0 \<notin> set (fst (spec_line l))"
  then have "TAILLE \<le> length ?m" by (auto simp add: line_fst spec_pad_def)
  with assms(1) length_merge_le [of ?c] length_compact_le [of l]
  have lm: "length ?m = length ?c" and lc: "length ?c = length l" by simp_all
  from lc have "?c = l"
    unfolding spec_compact_def by (metis filter_id_conv length_filter_less linorder_neq_iff filter_True)
  moreover from lm have "?m = ?c" by (simp add: merge_same_length)
  ultimately have "fst (spec_line l) = l" using assms(1) by (simp add: line_fst spec_pad_def)
  with assms(2) show False by simp
qed

lemma line_unchanged_points:
  assumes "fst (spec_line l) = l"
  shows "snd (spec_line l) = 0"
proof -
  have "spec_compact (fst (spec_line l)) = spec_merge_cells (spec_compact l)"
    by (rule compact_line)
  with assms have "length (spec_merge_cells (spec_compact l)) = length (spec_compact l)"
    by simp
  then show ?thesis by (simp add: spec_line_def merge_same_length)
qed

lemma left_changed_zero:
  assumes "wf_board p" "fst (spec_move_left p) \<noteq> p"
  shows "0 \<in> set (concat (fst (spec_move_left p)))"
proof -
  from assms(2) obtain l where l: "l \<in> set p" "fst (spec_line l) \<noteq> l"
    unfolding spec_move_left_def by (metis fst_conv map_idI)
  with assms(1) have "0 \<in> set (fst (spec_line l))"
    by (intro line_changed_zero) (simp_all add: wf_board_def)
  with l(1) show ?thesis by (auto simp add: spec_move_left_def)
qed

lemma sum_list_all_zero: "\<forall>x \<in> set xs. f x = (0::int) \<Longrightarrow> sum_list (map f xs) = 0"
  by (induction xs) simp_all

lemma left_unchanged_points:
  assumes "fst (spec_move_left p) = p"
  shows "snd (spec_move_left p) = 0"
proof -
  from assms have "map (\<lambda>l. fst (spec_line l)) p = map (\<lambda>l. l) p"
    by (simp add: spec_move_left_def)
  then have "\<forall>l \<in> set p. fst (spec_line l) = l" by (simp only: map_eq_conv)
  then have "\<forall>l \<in> set p. snd (spec_line l) = 0"
    by (simp add: line_unchanged_points)
  then show ?thesis by (simp add: spec_move_left_def sum_list_all_zero)
qed

lemma right_changed_zero:
  assumes "wf_board p" "fst (spec_move_right p) \<noteq> p"
  shows "0 \<in> set (concat (fst (spec_move_right p)))"
proof -
  let ?x = "fst (spec_move_left (spec_reverse_rows p))"
  have f: "fst (spec_move_right p) = spec_reverse_rows ?x"
    by (simp add: spec_move_right_def case_prod_unfold Let_def)
  have "?x \<noteq> spec_reverse_rows p"
    using assms(2) f reverse_rows_invol [of p] by metis
  then have "0 \<in> set (concat ?x)"
    using assms(1) by (intro left_changed_zero wf_reverse_rows)
  then show ?thesis by (simp only: f set_concat_reverse)
qed

lemma right_unchanged_points:
  assumes "fst (spec_move_right p) = p"
  shows "snd (spec_move_right p) = 0"
proof -
  let ?x = "fst (spec_move_left (spec_reverse_rows p))"
  have f: "fst (spec_move_right p) = spec_reverse_rows ?x"
    and s: "snd (spec_move_right p) = snd (spec_move_left (spec_reverse_rows p))"
    by (simp_all add: spec_move_right_def case_prod_unfold Let_def)
  have "?x = spec_reverse_rows p"
    using assms f reverse_rows_invol [of ?x] by simp
  then show ?thesis using s by (simp add: left_unchanged_points)
qed

lemma up_changed_zero:
  assumes "wf_board p" "fst (spec_move_up p) \<noteq> p"
  shows "0 \<in> set (concat (fst (spec_move_up p)))"
proof -
  let ?x = "fst (spec_move_left (spec_transpose p))"
  have f: "fst (spec_move_up p) = spec_transpose ?x"
    by (simp add: spec_move_up_def case_prod_unfold Let_def)
  have w: "wf_board ?x" by (intro wf_move_left wf_spec_transpose)
  have "?x \<noteq> spec_transpose p"
    using assms f spec_transpose_invol [of p] by metis
  then have "0 \<in> set (concat ?x)"
    by (intro left_changed_zero wf_spec_transpose)
  then show ?thesis by (simp only: f set_concat_transpose [OF w])
qed

lemma up_unchanged_points:
  assumes "wf_board p" "fst (spec_move_up p) = p"
  shows "snd (spec_move_up p) = 0"
proof -
  let ?x = "fst (spec_move_left (spec_transpose p))"
  have f: "fst (spec_move_up p) = spec_transpose ?x"
    and s: "snd (spec_move_up p) = snd (spec_move_left (spec_transpose p))"
    by (simp_all add: spec_move_up_def case_prod_unfold Let_def)
  have w: "wf_board ?x" by (intro wf_move_left wf_spec_transpose)
  have "?x = spec_transpose p"
    using assms f spec_transpose_invol [OF w] by simp
  then show ?thesis using s by (simp add: left_unchanged_points)
qed

lemma down_changed_zero:
  assumes "wf_board p" "fst (spec_move_down p) \<noteq> p"
  shows "0 \<in> set (concat (fst (spec_move_down p)))"
proof -
  let ?x = "fst (spec_move_right (spec_transpose p))"
  have f: "fst (spec_move_down p) = spec_transpose ?x"
    by (simp add: spec_move_down_def case_prod_unfold Let_def)
  have w: "wf_board ?x" by (intro wf_move_right wf_spec_transpose)
  have "?x \<noteq> spec_transpose p"
    using assms f spec_transpose_invol [of p] by metis
  then have "0 \<in> set (concat ?x)"
    by (intro right_changed_zero wf_spec_transpose)
  then show ?thesis by (simp only: f set_concat_transpose [OF w])
qed

lemma down_unchanged_points:
  assumes "wf_board p" "fst (spec_move_down p) = p"
  shows "snd (spec_move_down p) = 0"
proof -
  let ?x = "fst (spec_move_right (spec_transpose p))"
  have f: "fst (spec_move_down p) = spec_transpose ?x"
    and s: "snd (spec_move_down p) = snd (spec_move_right (spec_transpose p))"
    by (simp_all add: spec_move_down_def case_prod_unfold Let_def)
  have w: "wf_board ?x" by (intro wf_move_right wf_spec_transpose)
  have "?x = spec_transpose p"
    using assms f spec_transpose_invol [OF w] by simp
  then show ?thesis using s by (simp add: right_unchanged_points)
qed

section \<open>Terminal detection\<close>

lemma balayer4:
  "lire 0 = Some a \<Longrightarrow> lire 1 = Some b \<Longrightarrow> lire 2 = Some c \<Longrightarrow> lire 3 = Some d \<Longrightarrow>
     balayer lire [0..<TAILLE] z = Some (a = z \<or> b = a \<or> c = b \<or> d = c)"
  by (simp add: upt4)

lemma balayer_tout4:
  assumes "balayer (lire 0) [0..<TAILLE] 0 = Some f0" "balayer (lire 1) [0..<TAILLE] 0 = Some f1"
    "balayer (lire 2) [0..<TAILLE] 0 = Some f2" "balayer (lire 3) [0..<TAILLE] 0 = Some f3"
  shows "balayer_tout lire [0..<TAILLE] = Some (f0 \<or> f1 \<or> f2 \<or> f3)"
proof -
  have "balayer_tout lire [0, 1, 2, 3] = Some (f0 \<or> f1 \<or> f2 \<or> f3)"
    using assms by (simp split: bool.split)
  then show ?thesis by (simp only: upt4)
qed

lemma case_plateau_wf:
  "wf_board p \<Longrightarrow> i < TAILLE \<Longrightarrow> j < TAILLE \<Longrightarrow> case_plateau p i j = Some (p ! i ! j)"
  by (simp add: case_plateau_def wf_board_def py_nth_nat)

lemma set4: "{0..<TAILLE} = {0, 1, 2, 3}"
  by auto

lemma set3: "{0..<TAILLE - 1} = {0, 1, 2}"
  by auto

lemma plateau_plein_conv: "plateau_plein p \<longleftrightarrow> spec_empty_cells p = []"
proof -
  have "spec_empty_cells p = [] \<longleftrightarrow> set (spec_empty_cells p) = {}" by simp
  also have "\<dots> \<longleftrightarrow> plateau_plein p"
    unfolding set_spec_empty_cells plateau_plein_def by auto
  finally show ?thesis by simp
qed

lemma balayer_vertical:
  assumes "wf_board p"
  shows "balayer_tout (\<lambda>n v. case_plateau p v n) [0..<TAILLE] =
    Some ((p ! 0 ! 0 = 0 \<or> p ! 1 ! 0 = p ! 0 ! 0 \<or> p ! 2 ! 0 = p ! 1 ! 0 \<or> p ! 3 ! 0 = p ! 2 ! 0)
        \<or> (p ! 0 ! 1 = 0 \<or> p ! 1 ! 1 = p ! 0 ! 1 \<or> p ! 2 ! 1 = p ! 1 ! 1 \<or> p ! 3 ! 1 = p ! 2 ! 1)
        \<or> (p ! 0 ! 2 = 0 \<or> p ! 1 ! 2 = p ! 0 ! 2 \<or> p ! 2 ! 2 = p ! 1 ! 2 \<or> p ! 3 ! 2 = p ! 2 ! 2)
        \<or> (p ! 0 ! 3 = 0 \<or> p ! 1 ! 3 = p ! 0 ! 3 \<or> p ! 2 ! 3 = p ! 1 ! 3 \<or> p ! 3 ! 3 = p ! 2 ! 3))"
  by (intro balayer_tout4 balayer4 case_plateau_wf assms) simp_all

lemma balayer_horizontal:
  assumes "wf_board p"
  shows "balayer_tout (\<lambda>n v. case_plateau p n v) [0..<TAILLE] =
    Some ((p ! 0 ! 0 = 0 \<or> p ! 0 ! 1 = p ! 0 ! 0 \<or> p ! 0 ! 2 = p ! 0 ! 1 \<or> p ! 0 ! 3 = p ! 0 ! 2)
        \<or> (p ! 1 ! 0 = 0 \<or> p ! 1 ! 1 = p ! 1 ! 0 \<or> p ! 1 ! 2 = p ! 1 ! 1 \<or> p ! 1 ! 3 = p ! 1 ! 2)
        \<or> (p ! 2 ! 0 = 0 \<or> p ! 2 ! 1 = p ! 2 ! 0 \<or> p ! 2 ! 2 = p ! 2 ! 1 \<or> p ! 2 ! 3 = p ! 2 ! 2)
        \<or> (p ! 3 ! 0 = 0 \<or> p ! 3 ! 1 = p ! 3 ! 0 \<or> p ! 3 ! 2 = p ! 3 ! 1 \<or> p ! 3 ! 3 = p ! 3 ! 2))"
  by (intro balayer_tout4 balayer4 case_plateau_wf assms) simp_all

lemma partie_terminee_wf:
  assumes "wf_board p"
  shows "partie_terminee p =
    Some (plateau_plein p \<and> \<not> paire_horizontale p \<and> \<not> paire_verticale p)"
proof (cases "spec_empty_cells p = []")
  case False
  then show ?thesis
    using assms by (simp add: partie_terminee_def get_cases_vides_wf plateau_plein_conv)
next
  case True
  then have plein: "plateau_plein p" by (simp add: plateau_plein_conv)
  then have nz: "p ! 0 ! 0 \<noteq> 0" "p ! 0 ! 1 \<noteq> 0" "p ! 0 ! 2 \<noteq> 0" "p ! 0 ! 3 \<noteq> 0"
    "p ! 1 ! 0 \<noteq> 0" "p ! 2 ! 0 \<noteq> 0" "p ! 3 ! 0 \<noteq> 0"
    by (simp_all add: plateau_plein_def set4)
  have v: "balayer_tout (\<lambda>n v. case_plateau p v n) [0..<TAILLE] = Some (paire_verticale p)"
    unfolding balayer_vertical [OF assms] paire_verticale_def set4 set3
    using nz by (simp add: numeral_2_eq_2 numeral_3_eq_3)
  have h: "balayer_tout (\<lambda>n v. case_plateau p n v) [0..<TAILLE] = Some (paire_horizontale p)"
    unfolding balayer_horizontal [OF assms] paire_horizontale_def set4 set3
    using nz by (simp add: numeral_2_eq_2 numeral_3_eq_3)
  show ?thesis
    using assms True plein by (auto simp add: partie_terminee_def get_cases_vides_wf v h)
qed

section \<open>Spawning a tile\<close>

lemma py_int_unit: "0 \<le> r \<Longrightarrow> r < 1 \<Longrightarrow> py_int r = 0"
  by (simp add: py_int_def floor_eq_iff)

lemma ajouter_tuile_plein:
  "wf_board p \<Longrightarrow> spec_empty_cells p = [] \<Longrightarrow> ajouter_tuile p k r = Some p"
  by (simp add: ajouter_tuile_def get_cases_vides_wf)

lemma choix_vide:
  assumes "spec_empty_cells p \<noteq> []"
    and "c = spec_empty_cells p ! (k mod length (spec_empty_cells p))"
  shows "fst c < TAILLE \<and> snd c < TAILLE \<and> p ! fst c ! snd c = 0"
proof -
  have "c \<in> set (spec_empty_cells p)" using assms by simp
  then show ?thesis unfolding set_spec_empty_cells by auto
qed

lemma ajouter_tuile_vide:
  assumes "wf_board p" "spec_empty_cells p \<noteq> []"
    and "c = spec_empty_cells p ! (k mod length (spec_empty_cells p))"
  shows "ajouter_tuile p k r = Some (p[fst c := (p ! fst c)[snd c := 2 + 2 * py_int r]])"
proof -
  have b: "fst c < TAILLE" "snd c < TAILLE" using choix_vide [OF assms(2,3)] by simp_all
  then have "fst c < length p" "snd c < length (p ! fst c)"
    using assms(1) by (simp_all add: wf_board_def)
  then show ?thesis
    using assms by (simp add: ajouter_tuile_def get_cases_vides_wf py_nth_nat py_set_nat Let_def)
qed

lemma wf_update:
  assumes "wf_board p" "i < TAILLE"
  shows "wf_board (p[i := (p ! i)[j := v]])"
proof -
  have "length l = TAILLE" if "l \<in> set (p[i := (p ! i)[j := v]])" for l
  proof -
    from that have "l = (p ! i)[j := v] \<or> l \<in> set p"
      using set_update_subset_insert [of p i "(p ! i)[j := v]"] by auto
    then show ?thesis using assms wf_board_nth [of p i] by (auto simp add: wf_board_def)
  qed
  then show ?thesis using assms(1) by (simp add: wf_board_def)
qed

section \<open>One turn\<close>

lemma coup_candidat_wf:
  "wf_board p \<Longrightarrow> coup_candidat p direction =
     Some (if direction = ''b'' then spec_move_down p
           else if direction = ''h'' then spec_move_up p
           else if direction = ''d'' then spec_move_right p
           else if direction = ''g'' then spec_move_left p
           else (p, 0))"
  by (simp add: coup_candidat_def deplacer_gauche_eq deplacer_droite_eq deplacer_haut_eq
      deplacer_bas_eq)

lemma candidat_props:
  assumes "wf_board p" "coup_candidat p direction = Some (candidat, points)"
  shows "wf_board candidat" "candidat \<noteq> p \<Longrightarrow> 0 \<in> set (concat candidat)"
    "candidat = p \<Longrightarrow> points = 0"
proof -
  let ?choix = "if direction = ''b'' then spec_move_down p
           else if direction = ''h'' then spec_move_up p
           else if direction = ''d'' then spec_move_right p
           else if direction = ''g'' then spec_move_left p
           else (p, 0)"
  have eq: "(candidat, points) = ?choix"
    using assms(2) unfolding coup_candidat_wf [OF assms(1)] by (simp only: option.inject)
  consider (b) "(candidat, points) = spec_move_down p" | (h) "(candidat, points) = spec_move_up p"
    | (d) "(candidat, points) = spec_move_right p" | (g) "(candidat, points) = spec_move_left p"
    | (autre) "(candidat, points) = (p, 0)"
    using eq by presburger
  then have "wf_board candidat \<and> (candidat \<noteq> p \<longrightarrow> 0 \<in> set (concat candidat))
      \<and> (candidat = p \<longrightarrow> points = 0)"
  proof cases
    case b
    then have "candidat = fst (spec_move_down p)" "points = snd (spec_move_down p)"
      by (metis fst_conv, metis snd_conv)
    then show ?thesis
      using assms(1) wf_move_down down_changed_zero down_unchanged_points by metis
  next
    case h
    then have "candidat = fst (spec_move_up p)" "points = snd (spec_move_up p)"
      by (metis fst_conv, metis snd_conv)
    then show ?thesis
      using assms(1) wf_move_up up_changed_zero up_unchanged_points by metis
  next
    case d
    then have "candidat = fst (spec_move_right p)" "points = snd (spec_move_right p)"
      by (metis fst_conv, metis snd_conv)
    then show ?thesis
      using assms(1) wf_move_right right_changed_zero right_unchanged_points by metis
  next
    case g
    then have "candidat = fst (spec_move_left p)" "points = snd (spec_move_left p)"
      by (metis fst_conv, metis snd_conv)
    then show ?thesis
      using assms(1) wf_move_left left_changed_zero left_unchanged_points by metis
  next
    case autre
    then show ?thesis using assms(1) by simp
  qed
  then show "wf_board candidat" "candidat \<noteq> p \<Longrightarrow> 0 \<in> set (concat candidat)"
    "candidat = p \<Longrightarrow> points = 0"
    by simp_all
qed

lemma partie_terminee_vide:
  "wf_board p \<Longrightarrow> 0 \<in> set (concat p) \<Longrightarrow> partie_terminee p = Some False"
  by (simp add: partie_terminee_wf plateau_plein_conv spec_empty_cells_Nil)

lemma jouer_coup_inchange:
  assumes "wf_board p" "coup_candidat p direction = Some (p, points)"
  shows "jouer_coup p direction k r =
    Some (p, 0, plateau_plein p \<and> \<not> paire_horizontale p \<and> \<not> paire_verticale p)"
  using assms candidat_props(3) [OF assms]
  by (simp add: jouer_coup_def partie_terminee_wf)

lemma jouer_coup_change:
  assumes "wf_board p" "coup_candidat p direction = Some (candidat, points)" "candidat \<noteq> p"
  shows "0 \<in> set (concat candidat)" "partie_terminee candidat = Some False"
    "\<exists>nouveau. jouer_coup p direction k r = Some (nouveau, points, False)"
proof -
  have w: "wf_board candidat" and z: "0 \<in> set (concat candidat)"
    using candidat_props [OF assms(1,2)] assms(3) by simp_all
  show "0 \<in> set (concat candidat)" by (rule z)
  show t: "partie_terminee candidat = Some False" by (rule partie_terminee_vide [OF w z])
  have "spec_empty_cells candidat \<noteq> []" using w z by (simp add: spec_empty_cells_Nil)
  then obtain nouveau where "ajouter_tuile candidat k r = Some nouveau"
    using ajouter_tuile_vide [OF w] by blast
  then show "\<exists>nouveau. jouer_coup p direction k r = Some (nouveau, points, False)"
    using assms t by (auto simp add: jouer_coup_def)
qed

section \<open>Counting tiles\<close>

lemma nb_tuiles_update:
  "j < length l \<Longrightarrow> l ! j = 0 \<Longrightarrow> v \<noteq> 0 \<Longrightarrow> nb_tuiles (l[j := v]) = Suc (nb_tuiles l)"
proof (induction l arbitrary: j)
  case Nil
  then show ?case by simp
next
  case (Cons a l)
  then show ?case by (cases j) (simp_all add: nb_tuiles_def)
qed

lemma nb_tuiles_plateau_sum: "nb_tuiles_plateau p = sum_list (map nb_tuiles p)"
  by (induction p) (simp_all add: nb_tuiles_plateau_def nb_tuiles_def)

lemma sum_list_update_Suc:
  "i < length p \<Longrightarrow> f q = Suc (f (p ! i)) \<Longrightarrow>
     sum_list (map f (p[i := q])) = Suc (sum_list (map f p))"
proof (induction p arbitrary: i)
  case Nil
  then show ?case by simp
next
  case (Cons a p)
  then show ?case by (cases i) simp_all
qed

lemma nb_tuiles_plateau_update:
  assumes "i < length p" "j < length (p ! i)" "p ! i ! j = 0" "v \<noteq> 0"
  shows "nb_tuiles_plateau (p[i := (p ! i)[j := v]]) = Suc (nb_tuiles_plateau p)"
  unfolding nb_tuiles_plateau_sum
  using assms by (intro sum_list_update_Suc nb_tuiles_update)

lemma set_concat_update:
  "set (concat (p[i := (p ! i)[j := v]])) \<subseteq> insert v (set (concat p))"
proof
  fix x
  assume "x \<in> set (concat (p[i := (p ! i)[j := v]]))"
  then obtain l where l: "l \<in> set (p[i := (p ! i)[j := v]])" "x \<in> set l" by auto
  then have "l = (p ! i)[j := v] \<or> l \<in> set p"
    using set_update_subset_insert [of p i "(p ! i)[j := v]"] by auto
  then show "x \<in> insert v (set (concat p))"
  proof
    assume e: "l = (p ! i)[j := v]"
    show ?thesis
    proof (cases "i < length p")
      case True
      then have "p ! i \<in> set p" by simp
      moreover have "x = v \<or> x \<in> set (p ! i)"
        using l(2) e set_update_subset_insert [of "p ! i" j v] by auto
      ultimately show ?thesis by auto
    next
      case False
      then have "p[i := (p ! i)[j := v]] = p" by (simp add: list_update_beyond)
      with l show ?thesis by auto
    qed
  next
    assume "l \<in> set p"
    with l(2) show ?thesis by auto
  qed
qed

lemma length_concat_wf: "wf_board p \<Longrightarrow> length (concat p) = 16"
  by (erule wf_board_explicit) simp

lemma peu_de_tuiles:
  assumes "wf_board p" "nb_tuiles_plateau p < 16"
  shows "spec_empty_cells p \<noteq> []"
proof -
  have "length (filter (\<lambda>v. v \<noteq> 0) (concat p)) < length (concat p)"
    using assms by (simp add: nb_tuiles_plateau_def nb_tuiles_def length_concat_wf)
  then have "filter (\<lambda>v. v \<noteq> 0) (concat p) \<noteq> concat p" by auto
  then have "0 \<in> set (concat p)" by (auto simp add: filter_id_conv)
  then show ?thesis using assms(1) by (simp add: spec_empty_cells_Nil)
qed

lemma wf_creer_plateau_vide: "wf_board creer_plateau_vide"
  by (simp add: wf_board_def creer_plateau_vide_def)

lemma nb_tuiles_creer_plateau_vide: "nb_tuiles_plateau creer_plateau_vide = 0"
  by (simp add: nb_tuiles_plateau_def nb_tuiles_def creer_plateau_vide_def numeral_eq_Suc)

lemma set_creer_plateau_vide: "set (concat creer_plateau_vide) = {0}"
  by (simp add: creer_plateau_vide_def numeral_eq_Suc)

text \<open>One spawn on a board that has an empty cell, for a draw in the unit interval.\<close>

lemma ajouter_tuile_effet:
  assumes "wf_board p" "spec_empty_cells p \<noteq> []" "0 \<le> r" "r < 1"
  shows "\<exists>p'. ajouter_tuile p k r = Some p' \<and> wf_board p'
           \<and> nb_tuiles_plateau p' = Suc (nb_tuiles_plateau p)
           \<and> set (concat p') \<subseteq> insert 2 (set (concat p))"
proof -
  define c where "c = spec_empty_cells p ! (k mod length (spec_empty_cells p))"
  let ?p' = "p[fst c := (p ! fst c)[snd c := 2]]"
  have b: "fst c < TAILLE" "snd c < TAILLE" "p ! fst c ! snd c = 0"
    using choix_vide [OF assms(2) c_def] by simp_all
  have "ajouter_tuile p k r = Some ?p'"
    using ajouter_tuile_vide [OF assms(1,2) c_def] py_int_unit [OF assms(3,4)] by simp
  moreover have "wf_board ?p'" using assms(1) b(1) by (rule wf_update)
  moreover have "nb_tuiles_plateau ?p' = Suc (nb_tuiles_plateau p)"
    using assms(1) b by (intro nb_tuiles_plateau_update) (simp_all add: wf_board_def)
  moreover have "set (concat ?p') \<subseteq> insert 2 (set (concat p))"
    by (rule set_concat_update)
  ultimately show ?thesis by blast
qed

lemma nouvelle_partie_effet:
  assumes "0 \<le> r1" "r1 < 1" "0 \<le> r2" "r2 < 1"
  shows "\<exists>b. nouvelle_partie k1 r1 k2 r2 = Some (b, 0) \<and> wf_board b
           \<and> nb_tuiles_plateau b = 2 \<and> set (concat b) \<subseteq> {0, 2}"
proof -
  have "spec_empty_cells creer_plateau_vide \<noteq> []"
    by (intro peu_de_tuiles wf_creer_plateau_vide) (simp add: nb_tuiles_creer_plateau_vide)
  from ajouter_tuile_effet [OF wf_creer_plateau_vide this assms(1,2), of k1]
  obtain p1 where p1: "ajouter_tuile creer_plateau_vide k1 r1 = Some p1" "wf_board p1"
    and n1: "nb_tuiles_plateau p1 = Suc (nb_tuiles_plateau creer_plateau_vide)"
    and s1: "set (concat p1) \<subseteq> insert 2 (set (concat creer_plateau_vide))"
    by blast
  have n1': "nb_tuiles_plateau p1 = 1" using n1 by (simp add: nb_tuiles_creer_plateau_vide)
  have s1': "set (concat p1) \<subseteq> {0, 2}" using s1 unfolding set_creer_plateau_vide by blast
  have "spec_empty_cells p1 \<noteq> []"
    using p1(2) n1' by (intro peu_de_tuiles) simp_all
  from ajouter_tuile_effet [OF p1(2) this assms(3,4), of k2]
  obtain p2 where p2: "ajouter_tuile p1 k2 r2 = Some p2" "wf_board p2"
    and n2: "nb_tuiles_plateau p2 = Suc (nb_tuiles_plateau p1)"
    and s2: "set (concat p2) \<subseteq> insert 2 (set (concat p1))"
    by blast
  have "nb_tuiles_plateau p2 = 2" using n2 n1' by simp
  moreover have "set (concat p2) \<subseteq> {0, 2}" using s2 s1' by blast
  moreover have "nouvelle_partie k1 r1 k2 r2 = Some (p2, 0)"
    using p1(1) p2(1) by (simp add: nouvelle_partie_def)
  ultimately show ?thesis using p2(2) by blast
qed

section \<open>The line primitive: single-pass merge\<close>

text \<open>
  Claim C3. The line primitive merges each cell at most once per pass, scanning left to
  right: \<open>[2,2,2,2]\<close> gives \<open>[4,4,0,0]\<close> and 8 points, not \<open>[8,0,0,0]\<close>, and
  \<open>[4,4,8]\<close> gives \<open>[8,8,0,0]\<close>. On every line the primitive returns the line of
  section 4.2: the non-empty cells in their order, merged by \<open>_fusionner\<close>, padded with
  empty cells to \<open>TAILLE\<close>. On a compacted line \<open>_fusionner\<close> is determined by four
  rules. The empty line and a single cell stay as they are, for 0 points. A line that
  starts with two equal cells \<open>a\<close> gives the merged cell \<open>2 * a\<close>, worth that many points,
  followed by the merge of the rest on its own, so that the merged cell takes no part in
  any later merge, even when the rest starts with \<open>2 * a\<close>. A line that starts with two
  different cells \<open>a\<close> and \<open>b\<close> gives \<open>a\<close> unchanged, followed by the merge of the line
  from \<open>b\<close> on.
\<close>

theorem fusion_une_fois_par_case:
  "deplacer_ligne [2, 2, 2, 2] = Some ([4, 4, 0, 0], 8)
   \<and> deplacer_ligne [2, 2, 2, 2] \<noteq> Some ([8, 0, 0, 0], 8)
   \<and> deplacer_ligne [4, 4, 8] = Some ([8, 8, 0, 0], 8)
   \<and> deplacer_ligne l = Some (spec_line l)
   \<and> (\<exists>m q. fusionner (filter (\<lambda>v. v \<noteq> 0) l) = Some (m, q)
         \<and> deplacer_ligne l = Some (m @ replicate (TAILLE - length m) 0, q))
   \<and> fusionner [] = Some ([], 0)
   \<and> (a \<noteq> 0 \<longrightarrow> fusionner [a] = Some ([a], 0))
   \<and> (a \<noteq> 0 \<and> 0 \<notin> set rest \<longrightarrow>
        (\<exists>ys q. fusionner rest = Some (ys, q)
           \<and> fusionner (a # a # rest) = Some (2 * a # ys, 2 * a + q)))
   \<and> (a \<noteq> 0 \<and> b \<noteq> 0 \<and> a \<noteq> b \<and> 0 \<notin> set rest \<longrightarrow>
        (\<exists>ys q. fusionner (b # rest) = Some (ys, q)
           \<and> fusionner (a # b # rest) = Some (a # ys, q)))"
proof -
  have c1: "deplacer_ligne [2, 2, 2, 2] = Some ([4, 4, 0, 0], 8)"
    by (simp add: deplacer_ligne_eq spec_line_def spec_compact_def spec_pad_def numeral_eq_Suc)
  have c2: "deplacer_ligne [4, 4, 8] = Some ([8, 8, 0, 0], 8)"
    by (simp add: deplacer_ligne_eq spec_line_def spec_compact_def spec_pad_def numeral_eq_Suc)
  have c3: "\<exists>ys q. fusionner rest = Some (ys, q)
           \<and> fusionner (a # a # rest) = Some (2 * a # ys, 2 * a + q)"
    if "a \<noteq> 0" "0 \<notin> set rest"
    using that by (simp add: fusionner_sans_zero)
  have c4: "\<exists>ys q. fusionner (b # rest) = Some (ys, q)
           \<and> fusionner (a # b # rest) = Some (a # ys, q)"
    if "a \<noteq> 0" "b \<noteq> 0" "a \<noteq> b" "0 \<notin> set rest"
    using that by (simp add: fusionner_sans_zero)
  have c5: "fusionner [] = Some ([], 0)" "a \<noteq> 0 \<Longrightarrow> fusionner [a] = Some ([a], 0)"
    by (simp_all add: fusionner_sans_zero)
  have c6: "\<exists>m q. fusionner (filter (\<lambda>v. v \<noteq> 0) l) = Some (m, q)
         \<and> deplacer_ligne l = Some (m @ replicate (TAILLE - length m) 0, q)"
    by (simp add: deplacer_ligne_def supprimer_zeros_def fusionner_sans_zero completer_zeros_eq
        spec_pad_def)
  show ?thesis using c1 c2 c3 c4 c5 c6 deplacer_ligne_eq [of l] by simp
qed

text \<open>
  The rules of C3 at work: \<open>[2,2,4,8]\<close> gives \<open>[4,4,8]\<close>, where the new 4 stays next to
  the old one; \<open>[2,4,4,8]\<close> gives \<open>[2,8,8]\<close>, where the new 8 stays next to the old one;
  and the line \<open>[2,2,0,0]\<close> with empty cells gives \<open>[4,0,0,0]\<close> for 4 points.
\<close>

theorem fusion_une_fois_par_case_witness:
  "(2::int) \<noteq> 0 \<and> (4::int) \<noteq> 0 \<and> (2::int) \<noteq> 4 \<and> 0 \<notin> set [4, 8 :: int]
   \<and> fusionner [2, 2, 4, 8] = Some ([4, 4, 8], 4)
   \<and> fusionner [2, 4, 4, 8] = Some ([2, 8, 8], 8)
   \<and> deplacer_ligne [2, 2, 0, 0] = Some ([4, 0, 0, 0], 4)"
proof -
  have "fusionner [4, 8] = Some ([4, 8], 0)" "fusionner [4, 4, 8] = Some ([8, 8], 8)"
    "spec_line [2, 2, 0, 0] = ([4, 0, 0, 0], 4)"
    by (simp_all add: fusionner_sans_zero spec_line_def spec_compact_def spec_pad_def
        numeral_eq_Suc)
  then show ?thesis
    using fusion_une_fois_par_case [of "[2, 2, 0, 0]" 2 "[4, 8]" 4]
      fusion_une_fois_par_case [of "[2, 2, 0, 0]" 2 "[4, 4, 8]" 4]
    by simp
qed

text \<open>
  Claim C9, as amended. For every line of at most \<open>TAILLE\<close> integers, the line primitive
  returns on each successive application. After two applications the line has the same
  or fewer non-empty cells than the input and, whenever the input holds fewer than
  \<open>TAILLE\<close> non-empty cells, no two adjacent equal non-empty values. On an input of
  \<open>TAILLE\<close> non-empty cells a pair can remain after two applications; none remains
  after a third.
\<close>

theorem deux_passes_ligne:
  assumes "length l \<le> TAILLE"
  shows "\<exists>l1 q1 l2 q2 l3 q3.
           deplacer_ligne l = Some (l1, q1) \<and> deplacer_ligne l1 = Some (l2, q2)
         \<and> deplacer_ligne l2 = Some (l3, q3)
         \<and> nb_tuiles l2 \<le> nb_tuiles l
         \<and> (nb_tuiles l < TAILLE \<longrightarrow> \<not> paire_pleine l2)
         \<and> \<not> paire_pleine l3"
proof -
  define l1 where "l1 = fst (spec_line l)"
  define l2 where "l2 = fst (spec_line l1)"
  define l3 where "l3 = fst (spec_line l2)"
  have n: "nb_tuiles l2 \<le> nb_tuiles l"
    using nb_tuiles_line [of l] nb_tuiles_line [of l1] by (simp add: l1_def l2_def)
  have c2: "spec_compact l2 = spec_merge_cells (spec_merge_cells (spec_compact l))"
    by (simp add: l2_def l1_def compact_line)
  then have "l3 = spec_pad (spec_merge_cells (spec_merge_cells (spec_merge_cells (spec_compact l))))"
    by (simp add: l3_def line_fst)
  moreover have "length (spec_compact l) \<le> TAILLE"
    using assms length_compact_le [of l] by simp
  ultimately have p3: "\<not> paire_pleine l3"
    using merge3_distinct_adj paire_pleine_pad by (simp add: spec_pad_def)
  have "l2 = spec_pad (spec_merge_cells (spec_compact l1))"
    by (simp add: l2_def line_fst)
  then have "l2 = spec_pad (spec_merge_cells (spec_merge_cells (spec_compact l)))"
    by (simp add: l1_def compact_line)
  moreover have "length (spec_compact l) \<le> 3" if "nb_tuiles l < TAILLE"
    using that by (simp add: nb_tuiles_compact)
  ultimately have p2: "\<not> paire_pleine l2" if "nb_tuiles l < TAILLE"
    using that merge2_distinct_adj paire_pleine_pad by (simp add: spec_pad_def)
  have "deplacer_ligne l = Some (l1, snd (spec_line l))"
    "deplacer_ligne l1 = Some (l2, snd (spec_line l1))"
    "deplacer_ligne l2 = Some (l3, snd (spec_line l2))"
    by (simp_all add: deplacer_ligne_eq l1_def l2_def l3_def)
  with n p2 p3 show ?thesis by blast
qed

text \<open>
  The amended C9 on the line \<open>[2,2,4,0]\<close> of three tiles: two applications give
  \<open>[4,4,0,0]\<close> and then \<open>[8,0,0,0]\<close>, without a pair.
\<close>

theorem deux_passes_ligne_witness:
  "length [2, 2, 4, 0 :: int] \<le> TAILLE \<and> nb_tuiles [2, 2, 4, 0] < TAILLE
   \<and> deplacer_ligne [2, 2, 4, 0] = Some ([4, 4, 0, 0], 4)
   \<and> deplacer_ligne [4, 4, 0, 0] = Some ([8, 0, 0, 0], 8)
   \<and> \<not> paire_pleine [8, 0, 0, 0]
   \<and> (\<exists>l1 q1 l2 q2 l3 q3.
           deplacer_ligne [2, 2, 4, 0] = Some (l1, q1) \<and> deplacer_ligne l1 = Some (l2, q2)
         \<and> deplacer_ligne l2 = Some (l3, q3)
         \<and> nb_tuiles l2 \<le> nb_tuiles [2, 2, 4, 0] \<and> \<not> paire_pleine l2 \<and> \<not> paire_pleine l3)"
proof -
  have h: "length [2, 2, 4, 0 :: int] \<le> TAILLE" "nb_tuiles [2, 2, 4, 0] < TAILLE"
    by (simp_all add: nb_tuiles_def)
  have e: "deplacer_ligne [2, 2, 4, 0] = Some ([4, 4, 0, 0], 4)"
    "deplacer_ligne [4, 4, 0, 0] = Some ([8, 0, 0, 0], 8)"
    by (simp_all add: deplacer_ligne_eq spec_line_def spec_compact_def spec_pad_def numeral_eq_Suc)
  from deux_passes_ligne [OF h(1)] h(2) have
    "\<exists>l1 q1 l2 q2 l3 q3.
           deplacer_ligne [2, 2, 4, 0] = Some (l1, q1) \<and> deplacer_ligne l1 = Some (l2, q2)
         \<and> deplacer_ligne l2 = Some (l3, q3)
         \<and> nb_tuiles l2 \<le> nb_tuiles [2, 2, 4, 0] \<and> \<not> paire_pleine l2 \<and> \<not> paire_pleine l3"
    by blast
  then show ?thesis using h e by simp
qed

text \<open>
  C9 as it was stated fails on a line of four tiles: two applications turn \<open>[2,2,4,8]\<close>
  into \<open>[4,4,8,0]\<close> and then into \<open>[8,8,0,0]\<close>, which still holds two adjacent equal
  non-empty values.
\<close>

theorem deux_passes_paire_restante:
  "deplacer_ligne [2, 2, 4, 8] = Some ([4, 4, 8, 0], 4)
   \<and> deplacer_ligne [4, 4, 8, 0] = Some ([8, 8, 0, 0], 8)
   \<and> paire_pleine [8, 8, 0, 0]"
  by (simp add: deplacer_ligne_eq spec_line_def spec_compact_def spec_pad_def numeral_eq_Suc)

section \<open>Terminal detection: claim C4\<close>

text \<open>
  Claim C4. On a board of \<open>TAILLE\<close> rows of \<open>TAILLE\<close> cells, \<open>_partie_terminee\<close> returns
  true if and only if the board has no empty cell, no two horizontally adjacent cells of
  a row are equal and no two vertically adjacent cells of a column are equal. In
  particular a board with an empty cell is not terminal, and a full board with an
  adjacent equal pair is not terminal.
\<close>

theorem partie_terminee_ssi:
  assumes "wf_board p"
  shows "partie_terminee p =
           Some (plateau_plein p \<and> \<not> paire_horizontale p \<and> \<not> paire_verticale p)
         \<and> (0 \<in> set (concat p) \<longrightarrow> partie_terminee p = Some False)
         \<and> (plateau_plein p \<and> (paire_horizontale p \<or> paire_verticale p) \<longrightarrow>
              partie_terminee p = Some False)"
proof -
  have "partie_terminee p = Some False" if "0 \<in> set (concat p)"
    using assms that by (rule partie_terminee_vide)
  then show ?thesis using partie_terminee_wf [OF assms] by auto
qed

text \<open>C4 on a full board without any pair: the game is over.\<close>

theorem partie_terminee_ssi_witness:
  "wf_board [[4, 8, 16, 2], [8, 16, 32, 64], [16, 32, 64, 128], [32, 64, 128, 256]]
   \<and> partie_terminee [[4, 8, 16, 2], [8, 16, 32, 64], [16, 32, 64, 128], [32, 64, 128, 256]]
       = Some True"
proof -
  let ?p = "[[4, 8, 16, 2], [8, 16, 32, 64], [16, 32, 64, 128], [32, 64, 128, 256 :: int]]"
  have w: "wf_board ?p" by (simp add: wf_board_def)
  have "plateau_plein ?p" "\<not> paire_horizontale ?p" "\<not> paire_verticale ?p"
    by code_simp+
  then show ?thesis using partie_terminee_ssi [OF w] w by simp
qed

section \<open>One turn: claims C1, C5, C6 and C10\<close>

text \<open>
  Claim C1 says that the terminal flag returned with a changed board is computed on the
  board after the spawn. The code computes it on the candidate before the spawn: a left
  move on the board below slides the first row, the only empty cell receives the new
  tile, and the returned board is full without any pair, so \<open>_partie_terminee\<close> on the
  returned board is true, yet the flag returned with it is false.
\<close>

theorem jouer_coup_drapeau_avant_tuile:
  "jouer_coup [[0, 4, 8, 16], [8, 16, 32, 64], [16, 32, 64, 128], [32, 64, 128, 256]] ''g'' 0 (1 / 2)
     = Some ([[4, 8, 16, 2], [8, 16, 32, 64], [16, 32, 64, 128], [32, 64, 128, 256]], 0, False)
   \<and> partie_terminee [[4, 8, 16, 2], [8, 16, 32, 64], [16, 32, 64, 128], [32, 64, 128, 256]]
     = Some True"
  by code_simp

text \<open>
  Claim C5. If the move of the given direction produces a candidate equal to the input
  board, \<open>jouer_coup\<close> spawns no tile: it returns the input board itself, 0 points, and
  the terminal flag of that board.
\<close>

theorem coup_sans_effet:
  assumes "wf_board p" "coup_candidat p direction = Some (p, points)"
  shows "\<exists>fini. partie_terminee p = Some fini \<and> jouer_coup p direction k r = Some (p, 0, fini)"
  using jouer_coup_inchange [OF assms] partie_terminee_wf [OF assms(1)] by simp

text \<open>
  C5 on a board with ten empty cells that a left move cannot change: the board comes back
  as it is, without a new tile, for the draws 5 and 1/3.
\<close>

theorem coup_sans_effet_witness:
  "wf_board [[2, 0, 0, 0], [4, 2, 0, 0], [0, 0, 0, 0], [8, 0, 0, 0]]
   \<and> coup_candidat [[2, 0, 0, 0], [4, 2, 0, 0], [0, 0, 0, 0], [8, 0, 0, 0]] ''g''
       = Some ([[2, 0, 0, 0], [4, 2, 0, 0], [0, 0, 0, 0], [8, 0, 0, 0]], 0)
   \<and> 0 \<in> set (concat [[2, 0, 0, 0], [4, 2, 0, 0], [0, 0, 0, 0], [8, 0, 0, 0 :: int]])
   \<and> partie_terminee [[2, 0, 0, 0], [4, 2, 0, 0], [0, 0, 0, 0], [8, 0, 0, 0]] = Some False
   \<and> jouer_coup [[2, 0, 0, 0], [4, 2, 0, 0], [0, 0, 0, 0], [8, 0, 0, 0]] ''g'' 5 (1 / 3)
       = Some ([[2, 0, 0, 0], [4, 2, 0, 0], [0, 0, 0, 0], [8, 0, 0, 0]], 0, False)"
proof -
  let ?p = "[[2, 0, 0, 0], [4, 2, 0, 0], [0, 0, 0, 0], [8, 0, 0, 0 :: int]]"
  have w: "wf_board ?p" by (simp add: wf_board_def)
  have c: "coup_candidat ?p ''g'' = Some (?p, 0)" by code_simp
  have z: "0 \<in> set (concat ?p)" by simp
  have t: "partie_terminee ?p = Some False" by (rule partie_terminee_vide [OF w z])
  show ?thesis using coup_sans_effet [OF w c, of 5 "1 / 3"] w c z t by auto
qed

text \<open>
  Claim C6. For a direction outside \<open>'g'\<close>, \<open>'d'\<close>, \<open>'h'\<close>, \<open>'b'\<close>, \<open>jouer_coup\<close> raises
  nothing and returns the input board unchanged, 0 points and the terminal flag of the
  input board.
\<close>

theorem direction_inconnue:
  assumes "wf_board p" "direction \<notin> {''g'', ''d'', ''h'', ''b''}"
  shows "\<exists>fini. partie_terminee p = Some fini \<and> jouer_coup p direction k r = Some (p, 0, fini)"
proof -
  have "coup_candidat p direction = Some (p, 0)"
    using assms by (simp add: coup_candidat_wf)
  from jouer_coup_inchange [OF assms(1) this] partie_terminee_wf [OF assms(1)]
  show ?thesis by simp
qed

text \<open>C6 on the direction \<open>'x'\<close> and a board with empty cells.\<close>

theorem direction_inconnue_witness:
  "wf_board [[2, 2, 0, 0], [0, 0, 0, 0], [0, 4, 0, 0], [0, 0, 0, 0]]
   \<and> ''x'' \<notin> {''g'', ''d'', ''h'', ''b''}
   \<and> (\<exists>fini. partie_terminee [[2, 2, 0, 0], [0, 0, 0, 0], [0, 4, 0, 0], [0, 0, 0, 0]] = Some fini
        \<and> jouer_coup [[2, 2, 0, 0], [0, 0, 0, 0], [0, 4, 0, 0], [0, 0, 0, 0]] ''x'' 3 (1 / 2)
            = Some ([[2, 2, 0, 0], [0, 0, 0, 0], [0, 4, 0, 0], [0, 0, 0, 0]], 0, fini))"
proof -
  let ?p = "[[2, 2, 0, 0], [0, 0, 0, 0], [0, 4, 0, 0], [0, 0, 0, 0 :: int]]"
  have w: "wf_board ?p" by (simp add: wf_board_def)
  have d: "''x'' \<notin> {''g'', ''d'', ''h'', ''b''}" by simp
  show ?thesis using direction_inconnue [OF w d, of 3 "1 / 2"] w d by simp
qed

text \<open>
  Claim C10. Whenever the move changes the board, the candidate holds at least one empty
  cell, \<open>_partie_terminee\<close> on this candidate is false, and \<open>jouer_coup\<close> returns a board
  with the points of the move and the terminal flag false.
\<close>

theorem coup_effectif_jamais_fini:
  assumes "wf_board p" "coup_candidat p direction = Some (candidat, points)" "candidat \<noteq> p"
  shows "0 \<in> set (concat candidat) \<and> partie_terminee candidat = Some False
         \<and> (\<exists>nouveau. jouer_coup p direction k r = Some (nouveau, points, False))"
  using jouer_coup_change [OF assms] by simp

text \<open>C10 on a downward move that merges two tiles.\<close>

theorem coup_effectif_jamais_fini_witness:
  "wf_board [[2, 4, 2, 4], [4, 2, 4, 2], [2, 4, 2, 8], [4, 2, 4, 8]]
   \<and> coup_candidat [[2, 4, 2, 4], [4, 2, 4, 2], [2, 4, 2, 8], [4, 2, 4, 8]] ''b''
       = Some ([[2, 4, 2, 0], [4, 2, 4, 4], [2, 4, 2, 2], [4, 2, 4, 16]], 16)
   \<and> [[2, 4, 2, 0], [4, 2, 4, 4], [2, 4, 2, 2], [4, 2, 4, 16]]
       \<noteq> [[2, 4, 2, 4], [4, 2, 4, 2], [2, 4, 2, 8], [4, 2, 4, 8 :: int]]
   \<and> partie_terminee [[2, 4, 2, 0], [4, 2, 4, 4], [2, 4, 2, 2], [4, 2, 4, 16]] = Some False
   \<and> (\<exists>nouveau. jouer_coup [[2, 4, 2, 4], [4, 2, 4, 2], [2, 4, 2, 8], [4, 2, 4, 8]] ''b'' 0 0
        = Some (nouveau, 16, False))"
proof -
  let ?p = "[[2, 4, 2, 4], [4, 2, 4, 2], [2, 4, 2, 8], [4, 2, 4, 8 :: int]]"
  let ?c = "[[2, 4, 2, 0], [4, 2, 4, 4], [2, 4, 2, 2], [4, 2, 4, 16 :: int]]"
  have w: "wf_board ?p" by (simp add: wf_board_def)
  have c: "coup_candidat ?p ''b'' = Some (?c, 16)" by code_simp
  have n: "?c \<noteq> ?p" by simp
  show ?thesis using coup_effectif_jamais_fini [OF w c n, of 0 0] w c n by simp
qed

section \<open>The four moves: claim C7\<close>

text \<open>
  Claim C7. On every board, each move of the code returns exactly the board and the
  points of the composition of section 4.3: move right is reverse rows, move left,
  reverse rows, with the points of the inner move left; move up is transpose, move left,
  transpose; move down is transpose, move right, transpose; and move left applies the
  line primitive of section 4.2 to each row and sums the points.
\<close>

theorem deplacements_par_symetrie:
  assumes "wf_board p"
  shows "deplacer_gauche p = Some (spec_move_left p)
         \<and> deplacer_droite p = Some (spec_move_right p)
         \<and> deplacer_haut p = Some (spec_move_up p)
         \<and> deplacer_bas p = Some (spec_move_down p)"
  using assms
  by (simp add: deplacer_gauche_eq deplacer_droite_eq deplacer_haut_eq deplacer_bas_eq)

text \<open>C7 on a board where every direction merges something.\<close>

theorem deplacements_par_symetrie_witness:
  "wf_board [[2, 2, 0, 4], [0, 2, 0, 4], [8, 8, 8, 8], [0, 0, 0, 2]]
   \<and> deplacer_droite [[2, 2, 0, 4], [0, 2, 0, 4], [8, 8, 8, 8], [0, 0, 0, 2]]
       = Some (spec_move_right [[2, 2, 0, 4], [0, 2, 0, 4], [8, 8, 8, 8], [0, 0, 0, 2]])
   \<and> deplacer_haut [[2, 2, 0, 4], [0, 2, 0, 4], [8, 8, 8, 8], [0, 0, 0, 2]]
       = Some (spec_move_up [[2, 2, 0, 4], [0, 2, 0, 4], [8, 8, 8, 8], [0, 0, 0, 2]])
   \<and> deplacer_bas [[2, 2, 0, 4], [0, 2, 0, 4], [8, 8, 8, 8], [0, 0, 0, 2]]
       = Some (spec_move_down [[2, 2, 0, 4], [0, 2, 0, 4], [8, 8, 8, 8], [0, 0, 0, 2]])
   \<and> spec_move_right [[2, 2, 0, 4], [0, 2, 0, 4], [8, 8, 8, 8], [0, 0, 0, 2]]
       = ([[0, 0, 4, 4], [0, 0, 2, 4], [0, 0, 16, 16], [0, 0, 0, 2]], 36)"
proof -
  let ?p = "[[2, 2, 0, 4], [0, 2, 0, 4], [8, 8, 8, 8], [0, 0, 0, 2 :: int]]"
  have w: "wf_board ?p" by (simp add: wf_board_def)
  have e: "spec_move_right ?p = ([[0, 0, 4, 4], [0, 0, 2, 4], [0, 0, 16, 16], [0, 0, 0, 2]], 36)"
    by code_simp
  show ?thesis using deplacements_par_symetrie [OF w] w e by simp
qed

section \<open>Spawning: claims C2 and C8\<close>

text \<open>
  Claim C2 says that the spawned value is 2 with probability 3/4 and 4 with probability
  1/4, so that both values occur. The code computes the value as
  \<open>2 + 2 * int(random.random())\<close>, and \<open>int\<close> truncates every draw of the unit interval
  to 0: whatever the draw, the value is 2, the cells of the returned board are cells of
  the input board or the value 2, and a board without a 4 has none after the spawn.
\<close>

theorem tuile_de_quatre_jamais:
  assumes "wf_board p" "0 \<le> r" "r < 1"
  shows "2 + 2 * py_int r = 2
         \<and> (\<exists>b. ajouter_tuile p k r = Some b
               \<and> set (concat b) \<subseteq> insert 2 (set (concat p))
               \<and> (4 \<notin> set (concat p) \<longrightarrow> 4 \<notin> set (concat b)))"
proof (cases "spec_empty_cells p = []")
  case True
  then show ?thesis
    using ajouter_tuile_plein [OF assms(1) True] py_int_unit [OF assms(2,3)] by auto
next
  case False
  from ajouter_tuile_effet [OF assms(1) False assms(2,3), of k]
  obtain b where b: "ajouter_tuile p k r = Some b"
    and s: "set (concat b) \<subseteq> insert 2 (set (concat p))"
    by blast
  from s have "4 \<notin> set (concat p) \<longrightarrow> 4 \<notin> set (concat b)" by auto
  moreover have "2 + 2 * py_int r = 2" using py_int_unit [OF assms(2,3)] by simp
  ultimately show ?thesis using b s by blast
qed

text \<open>
  C2 on the empty board for the draw \<open>r = 9/10\<close>, above any threshold 3/4: the tile is a
  2.
\<close>

theorem tuile_de_quatre_jamais_witness:
  "wf_board creer_plateau_vide \<and> (0 :: real) \<le> 9 / 10 \<and> (9 / 10 :: real) < 1
   \<and> 4 \<notin> set (concat creer_plateau_vide)
   \<and> ajouter_tuile creer_plateau_vide 0 (9 / 10)
       = Some [[2, 0, 0, 0], [0, 0, 0, 0], [0, 0, 0, 0], [0, 0, 0, 0]]
   \<and> (\<exists>b. ajouter_tuile creer_plateau_vide 0 (9 / 10) = Some b \<and> 4 \<notin> set (concat b))"
proof -
  have r: "(0 :: real) \<le> 9 / 10" "(9 / 10 :: real) < 1" by simp_all
  have n: "4 \<notin> set (concat creer_plateau_vide)" unfolding set_creer_plateau_vide by simp
  have e: "ajouter_tuile creer_plateau_vide 0 (9 / 10)
       = Some [[2, 0, 0, 0], [0, 0, 0, 0], [0, 0, 0, 0], [0, 0, 0, 0]]"
    by code_simp
  from tuile_de_quatre_jamais [OF wf_creer_plateau_vide r, of 0] n
  have "\<exists>b. ajouter_tuile creer_plateau_vide 0 (9 / 10) = Some b \<and> 4 \<notin> set (concat b)"
    by blast
  then show ?thesis using wf_creer_plateau_vide r n e by simp
qed

text \<open>
  Claim C8. For draws \<open>r1\<close> and \<open>r2\<close> of \<open>random.random()\<close>, \<open>nouvelle_partie\<close> returns a
  board of \<open>TAILLE\<close> rows of \<open>TAILLE\<close> cells with exactly two non-empty cells, each
  holding 2 or 4, together with the score 0. Two non-empty cells after two spawns mean
  that the two tiles went to two distinct cells.
\<close>

theorem nouvelle_partie_deux_tuiles:
  assumes "0 \<le> r1" "r1 < 1" "0 \<le> r2" "r2 < 1"
  shows "\<exists>b. nouvelle_partie k1 r1 k2 r2 = Some (b, 0) \<and> wf_board b
           \<and> nb_tuiles_plateau b = 2 \<and> set (concat b) \<subseteq> {0, 2, 4}"
  using nouvelle_partie_effet [OF assms, of k1 k2] by blast

text \<open>C8 for the draws 0 and 0 of \<open>random.choice\<close>: the second tile goes to the next cell.\<close>

theorem nouvelle_partie_deux_tuiles_witness:
  "(0 :: real) \<le> 1 / 2 \<and> (1 / 2 :: real) < 1 \<and> (0 :: real) \<le> 1 / 4 \<and> (1 / 4 :: real) < 1
   \<and> (\<exists>b. nouvelle_partie 0 (1 / 2) 0 (1 / 4) = Some (b, 0) \<and> wf_board b
           \<and> nb_tuiles_plateau b = 2 \<and> set (concat b) \<subseteq> {0, 2, 4})"
  using nouvelle_partie_deux_tuiles [of "1 / 2" "1 / 4" 0 0] by simp

end
